theory Spec2Isabelle
  imports Complex_Main "HOL-Library.AList" "HOL-Library.Char_ord" "HOL-Library.List_Lexorder"
begin

section \<open>Data model of pyro/util.py\<close>

text \<open>
  A frame of a site's \<open>cond_indep_stack\<close>. The source reads the attributes
  \<open>name\<close>, \<open>dim\<close> (a negative integer or \<open>None\<close>), \<open>size\<close>, \<open>counter\<close> and
  \<open>vectorized\<close>.
\<close>

record frame =
  frame_name :: string
  dim :: "int option"
  frame_size :: int
  counter :: int
  vectorized :: bool

text \<open>
  The distribution object of a site. \<open>hasattr(fn, "event_dim")\<close> and
  \<open>hasattr(fn, "shape")\<close> are the two options being \<open>Some\<close>; \<open>shape\<close> holds the
  value of \<open>fn.shape(*args, **kwargs)\<close>, \<open>type_name\<close> is \<open>type(fn).__name__\<close>.
\<close>

record dist =
  type_name :: string
  event_dim :: "int option"
  shape :: "int list option"

text \<open>
  The \<open>infer\<close> dictionary, reduced to the three keys the module reads with \<open>.get\<close>:
  \<open>None\<close> is a missing key (or a stored \<open>None\<close>).
\<close>

record infer_hints =
  is_auxiliary :: "bool option"
  enumerate :: "string option"
  enumerate_dim :: "int option"

record site =
  site_type :: string
  site_name :: string
  fn :: dist
  is_observed :: bool
  infer :: infer_hints
  cond_indep_stack :: "frame list"
  log_prob_shape :: "int list"

text \<open>
  Everything the module raises. \<open>AssertionError\<close> and \<open>KeyError\<close> are Python's own;
  the others are the \<open>ValueError\<close>s of the source, one constructor per message, holding
  the values that \<open>format\<close> puts into the message, in the order of its placeholders.
\<close>

datatype error =
    AssertionError
  | KeyError string
  | DimCollision string string
  | PlateStackOverflow string nat
  | InvalidLogProbShape string "int list" "int list"
  | SiteDimsDisagree string "int list" "int list"
  | EventDimsDisagree string int int
  | ShapesDisagree string "int list" "int list"

text \<open>\<open>max_plate_nesting\<close> is a Python integer or \<open>float('inf')\<close> (the default).\<close>

datatype nesting = Finite int | Infinity

fun len_gt :: "nat \<Rightarrow> nesting \<Rightarrow> bool" where
  "len_gt n (Finite m) = (m < int n)"
| "len_gt n Infinity = False"

text \<open>Python's \<open>xs[k:]\<close>: a negative start counts from the end, and both ends clamp.\<close>

definition slice_from :: "int \<Rightarrow> 'a list \<Rightarrow> 'a list" where
  "slice_from k xs = (if k < 0 then drop (nat (int (length xs) + k)) xs else drop (nat k) xs)"

text \<open>\<open>xs[len(xs) - max_plate_nesting:]\<close>, which the source runs only for a finite bound.\<close>

fun rightmost :: "nesting \<Rightarrow> 'a list \<Rightarrow> 'a list" where
  "rightmost (Finite m) xs = slice_from (int (length xs) - m) xs"
| "rightmost Infinity xs = xs"

text \<open>\<open>six.moves.zip_longest(xs, ys, fillvalue=fill)\<close>.\<close>

fun zip_longest :: "'a list \<Rightarrow> 'a list \<Rightarrow> 'a \<Rightarrow> ('a \<times> 'a) list" where
  "zip_longest [] [] fill = []"
| "zip_longest (x # xs) [] fill = (x, fill) # zip_longest xs [] fill"
| "zip_longest [] (y # ys) fill = (fill, y) # zip_longest [] ys fill"
| "zip_longest (x # xs) (y # ys) fill = (x, y) # zip_longest xs ys fill"

section \<open>check_site_shape\<close>

text \<open>
  The loop over \<open>site["cond_indep_stack"]\<close> that builds \<open>expected_shape\<close>, a list of
  \<open>None\<close> placeholders and sizes. The index \<open>expected_shape[f.dim]\<close> is
  \<open>len(expected_shape) + f.dim\<close>, in range after the padding.
\<close>

fun expected_shape_loop :: "string \<Rightarrow> frame list \<Rightarrow> int option list \<Rightarrow> error + int option list" where
  "expected_shape_loop sname [] es = Inr es"
| "expected_shape_loop sname (f # fs) es =
     (case dim f of
        None \<Rightarrow> expected_shape_loop sname fs es
      | Some d \<Rightarrow>
          if \<not> d < 0 then Inl AssertionError
          else
            let es' = (if int (length es) < - d
                       then replicate (nat (- d - int (length es))) None @ es else es);
                i = nat (int (length es') + d)
            in (case es' ! i of
                  Some _ \<Rightarrow> Inl (DimCollision sname (frame_name f))
                | None \<Rightarrow> expected_shape_loop sname fs (es'[i := Some (frame_size f)])))"

text \<open>\<open>[-1 if e is None else e for e in expected_shape]\<close>\<close>

definition fill_wildcards :: "int option list \<Rightarrow> int list" where
  "fill_wildcards es = map (\<lambda>e. case e of None \<Rightarrow> - 1 | Some s \<Rightarrow> s) es"

text \<open>The final loop over the pairs \<open>(actual_size, expected_size)\<close>, raising at the first bad pair.\<close>

fun compare_sizes :: "error \<Rightarrow> (int \<times> int) list \<Rightarrow> error + unit" where
  "compare_sizes err [] = Inr ()"
| "compare_sizes err ((actual_size, expected_size) # ps) =
     (if expected_size \<noteq> - 1 \<and> expected_size \<noteq> actual_size then Inl err
      else compare_sizes err ps)"

definition expected_shape :: "site \<Rightarrow> error + int list" where
  "expected_shape s =
     (case expected_shape_loop (site_name s) (cond_indep_stack s) [] of
        Inl e \<Rightarrow> Inl e
      | Inr es \<Rightarrow> Inr (fill_wildcards es))"

definition check_site_shape :: "site \<Rightarrow> nesting \<Rightarrow> error + unit" where
  "check_site_shape s max_plate_nesting =
     (case expected_shape s of
        Inl e \<Rightarrow> Inl e
      | Inr expected \<Rightarrow>
          if len_gt (length expected) max_plate_nesting
          then Inl (PlateStackOverflow (site_name s) (length expected))
          else
            let actual_shape = (if len_gt (length (log_prob_shape s)) max_plate_nesting
                                then rightmost max_plate_nesting (log_prob_shape s)
                                else log_prob_shape s)
            in compare_sizes (InvalidLogProbShape (site_name s) expected actual_shape)
                 (zip_longest (rev actual_shape) (rev expected) 1))"

section \<open>Traces and warnings\<close>

text \<open>
  \<open>trace.nodes\<close> is an ordered mapping from site names to sites: an association list
  in recording order, whose keys are distinct in a well-formed trace. \<open>trace.nodes[name]\<close>
  is \<open>map_of\<close>, and a missing key raises \<open>KeyError\<close>.
\<close>

type_synonym trace = "(string \<times> site) list"

definition lookup_node :: "trace \<Rightarrow> string \<Rightarrow> error + site" where
  "lookup_node tr name = (case map_of tr name of None \<Rightarrow> Inl (KeyError name) | Some s \<Rightarrow> Inr s)"

text \<open>
  What \<open>warnings.warn\<close> is called with, one constructor per message, holding the
  values that \<open>format\<close> puts into it. A function that warns returns the list of its
  warnings, in the order of the calls, beside its outcome.
\<close>

datatype warning =
    ModelVarsChanged "string set" "string set"
  | AuxVarsInModel "string set"
  | GuideVarsNotInModel "string set"
  | ModelVarsNotInGuide "string set"
  | GuidePlatesNotInModel "string set"
  | PossiblyInvalidDependency string string "string list" "string list"

definition is_sample :: "site \<Rightarrow> bool" where
  "is_sample s = (site_type s = ''sample'')"

definition is_subsample :: "site \<Rightarrow> bool" where
  "is_subsample s = (type_name (fn s) = ''_Subsample'')"

section \<open>check_traces_match\<close>

text \<open>
  \<open>set(name for name, site in trace.nodes.items() if site["type"] == "sample")\<close>, as
  the list of these names in trace order; the set is \<open>set (sample_vars tr)\<close>.
\<close>

definition sample_vars :: "trace \<Rightarrow> string list" where
  "sample_vars tr = map fst (filter (\<lambda>(name, s). is_sample s) tr)"

text \<open>
  The loop \<open>for name in vars1\<close> over a given iteration order (Python does not fix the
  order of a set). Both \<open>trace1.nodes[name]\<close> and \<open>trace2.nodes[name]\<close> are read
  before anything else.
\<close>

fun traces_match_loop :: "trace \<Rightarrow> trace \<Rightarrow> string list \<Rightarrow> error + unit" where
  "traces_match_loop trace1 trace2 [] = Inr ()"
| "traces_match_loop trace1 trace2 (name # names) =
     (case lookup_node trace1 name of
        Inl e \<Rightarrow> Inl e
      | Inr site1 \<Rightarrow>
          (case lookup_node trace2 name of
             Inl e \<Rightarrow> Inl e
           | Inr site2 \<Rightarrow>
               (case (shape (fn site1), shape (fn site2)) of
                  (Some shape1, Some shape2) \<Rightarrow>
                    if shape1 \<noteq> shape2 then Inl (SiteDimsDisagree name shape1 shape2)
                    else traces_match_loop trace1 trace2 names
                | _ \<Rightarrow> traces_match_loop trace1 trace2 names)))"

definition check_traces_match :: "trace \<Rightarrow> trace \<Rightarrow> warning list \<times> (error + unit)" where
  "check_traces_match trace1 trace2 =
     (let vars1 = sample_vars trace1; vars2 = sample_vars trace2
      in ((if set vars1 \<noteq> set vars2 then [ModelVarsChanged (set vars1) (set vars2)] else []),
          traces_match_loop trace1 trace2 vars1))"

section \<open>check_model_guide_match\<close>

definition guide_vars :: "trace \<Rightarrow> string list" where
  "guide_vars guide_trace =
     map fst (filter (\<lambda>(name, s). is_sample s \<and> \<not> is_subsample s) guide_trace)"

definition aux_vars :: "trace \<Rightarrow> string list" where
  "aux_vars guide_trace =
     map fst (filter (\<lambda>(name, s). is_sample s \<and> is_auxiliary (infer s) = Some True) guide_trace)"

definition model_vars :: "trace \<Rightarrow> string list" where
  "model_vars model_trace =
     map fst (filter (\<lambda>(name, s). (is_sample s \<and> \<not> is_observed s) \<and> \<not> is_subsample s) model_trace)"

definition enum_vars :: "trace \<Rightarrow> trace \<Rightarrow> string list" where
  "enum_vars model_trace guide_trace =
     map fst (filter (\<lambda>(name, s). (is_sample s \<and> \<not> is_observed s) \<and> \<not> is_subsample s
                                  \<and> enumerate_dim (infer s) \<noteq> None
                                  \<and> name \<notin> set (guide_vars guide_trace)) model_trace)"

definition model_plates :: "trace \<Rightarrow> string list" where
  "model_plates model_trace =
     map fst (filter (\<lambda>(name, s). (is_sample s \<and> \<not> is_observed s) \<and> is_subsample s) model_trace)"

definition guide_plates :: "trace \<Rightarrow> string list" where
  "guide_plates guide_trace =
     map fst (filter (\<lambda>(name, s). is_sample s \<and> is_subsample s) guide_trace)"

text \<open>The event_dim test of the loop body.\<close>

definition check_event_dims :: "string \<Rightarrow> site \<Rightarrow> site \<Rightarrow> error + unit" where
  "check_event_dims name model_site guide_site =
     (case (event_dim (fn model_site), event_dim (fn guide_site)) of
        (Some m, Some g) \<Rightarrow> if m \<noteq> g then Inl (EventDimsDisagree name m g) else Inr ()
      | _ \<Rightarrow> Inr ())"

text \<open>\<open>if len(shape) > max_plate_nesting: shape = shape[len(shape) - max_plate_nesting:]\<close>\<close>

definition truncate_shape :: "nesting \<Rightarrow> int list \<Rightarrow> int list" where
  "truncate_shape max_plate_nesting sh =
     (if len_gt (length sh) max_plate_nesting then rightmost max_plate_nesting sh else sh)"

text \<open>The loop over the pairs \<open>(model_size, guide_size)\<close>.\<close>

fun compare_model_guide :: "error \<Rightarrow> (int \<times> int) list \<Rightarrow> error + unit" where
  "compare_model_guide err [] = Inr ()"
| "compare_model_guide err ((model_size, guide_size) # ps) =
     (if model_size \<noteq> guide_size then Inl err else compare_model_guide err ps)"

text \<open>The shape test of the loop body; \<open>continue\<close> is \<open>Inr ()\<close>.\<close>

definition check_shapes :: "string \<Rightarrow> site \<Rightarrow> site \<Rightarrow> nesting \<Rightarrow> error + unit" where
  "check_shapes name model_site guide_site max_plate_nesting =
     (case (shape (fn model_site), shape (fn guide_site)) of
        (Some model_shape, Some guide_shape) \<Rightarrow>
          if model_shape = guide_shape then Inr ()
          else
            let model_shape' = truncate_shape max_plate_nesting model_shape;
                guide_shape' = truncate_shape max_plate_nesting guide_shape
            in if model_shape' = guide_shape' then Inr ()
               else compare_model_guide (ShapesDisagree name model_shape' guide_shape')
                      (zip_longest (rev model_shape') (rev guide_shape') 1)
      | _ \<Rightarrow> Inr ())"

definition check_site_pair :: "string \<Rightarrow> site \<Rightarrow> site \<Rightarrow> nesting \<Rightarrow> error + unit" where
  "check_site_pair name model_site guide_site max_plate_nesting =
     (case check_event_dims name model_site guide_site of
        Inl e \<Rightarrow> Inl e
      | Inr _ \<Rightarrow> check_shapes name model_site guide_site max_plate_nesting)"

text \<open>The loop \<open>for name in model_vars & guide_vars\<close> over a given iteration order.\<close>

fun model_guide_loop :: "trace \<Rightarrow> trace \<Rightarrow> nesting \<Rightarrow> string list \<Rightarrow> error + unit" where
  "model_guide_loop model_trace guide_trace mpn [] = Inr ()"
| "model_guide_loop model_trace guide_trace mpn (name # names) =
     (case lookup_node model_trace name of
        Inl e \<Rightarrow> Inl e
      | Inr model_site \<Rightarrow>
          (case lookup_node guide_trace name of
             Inl e \<Rightarrow> Inl e
           | Inr guide_site \<Rightarrow>
               (case check_site_pair name model_site guide_site mpn of
                  Inl e \<Rightarrow> Inl e
                | Inr _ \<Rightarrow> model_guide_loop model_trace guide_trace mpn names)))"

text \<open>The three warnings about the variable sets, in the order of the source.\<close>

definition var_warnings :: "trace \<Rightarrow> trace \<Rightarrow> warning list" where
  "var_warnings model_trace guide_trace =
     (let gv = set (guide_vars guide_trace); av = set (aux_vars guide_trace);
          mv = set (model_vars model_trace); ev = set (enum_vars model_trace guide_trace)
      in (if av \<inter> mv \<noteq> {} then [AuxVarsInModel (av \<inter> mv)] else [])
       @ (if \<not> gv \<subseteq> mv \<union> av then [GuideVarsNotInModel (gv - av - mv)] else [])
       @ (if \<not> mv \<subseteq> gv \<union> ev then [ModelVarsNotInGuide (mv - gv - ev)] else []))"

definition plate_warnings :: "trace \<Rightarrow> trace \<Rightarrow> warning list" where
  "plate_warnings model_trace guide_trace =
     (let mv = set (model_plates model_trace); gv = set (guide_plates guide_trace)
      in if \<not> gv \<subseteq> mv then [GuidePlatesNotInModel (gv - mv)] else [])"

text \<open>
  The names of \<open>model_vars & guide_vars\<close>, in the order of the model trace. The last
  warning is reached only when the loop raised nothing.
\<close>

definition common_vars :: "trace \<Rightarrow> trace \<Rightarrow> string list" where
  "common_vars model_trace guide_trace =
     filter (\<lambda>name. name \<in> set (guide_vars guide_trace)) (model_vars model_trace)"

definition check_model_guide_match :: "trace \<Rightarrow> trace \<Rightarrow> nesting \<Rightarrow> warning list \<times> (error + unit)" where
  "check_model_guide_match model_trace guide_trace max_plate_nesting =
     (case model_guide_loop model_trace guide_trace max_plate_nesting
             (common_vars model_trace guide_trace) of
        Inl e \<Rightarrow> (var_warnings model_trace guide_trace, Inl e)
      | Inr _ \<Rightarrow> (var_warnings model_trace guide_trace @ plate_warnings model_trace guide_trace, Inr ()))"

text \<open>
  The specification's wording of the truncation: the rightmost \<open>max_plate_nesting\<close>
  entries of a shape.
\<close>

fun spec_rightmost_entries :: "nesting \<Rightarrow> int list \<Rightarrow> int list" where
  "spec_rightmost_entries (Finite m) sh = drop (length sh - nat m) sh"
| "spec_rightmost_entries Infinity sh = sh"

section \<open>check_traceenum_requirements\<close>

text \<open>
  A snapshot \<open>{f.name: f.counter for f in stack if not f.vectorized}\<close> is a dictionary:
  an association list in insertion order, where a later frame of the same name replaces
  the value.
\<close>

type_synonym counters = "(string \<times> int) list"

definition irange_counter_of :: "frame list \<Rightarrow> counters" where
  "irange_counter_of stack =
     foldl (\<lambda>d f. AList.update (frame_name f) (counter f) d) []
       (filter (\<lambda>f. \<not> vectorized f) stack)"

text \<open>
  \<open>frozenset(f for f in stack if f.vectorized)\<close>: the vectorized frames without
  repetition. Two such lists are the same context when they have the same elements, and
  the order \<open><\<close> of the source is \<open>\<subset>\<close> on their sets.
\<close>

definition context_of :: "frame list \<Rightarrow> frame list" where
  "context_of stack = remdups (filter vectorized stack)"

fun are_independent :: "counters \<Rightarrow> counters \<Rightarrow> bool" where
  "are_independent [] counters2 = False"
| "are_independent ((name, counter1) # rest) counters2 =
     (case map_of counters2 name of
        Some counter2 \<Rightarrow> if counter2 \<noteq> counter1 then True else are_independent rest counters2
      | None \<Rightarrow> are_independent rest counters2)"

text \<open>
  The two local dictionaries of one pass over a trace: \<open>irange_counters\<close> from site
  names to snapshots, and \<open>enumerated_contexts\<close>, a \<open>defaultdict(set)\<close> from contexts
  to sets of site names (each set as the list of its names in the order they were added).
\<close>

record enum_state =
  irange_counters :: "(string \<times> counters) list"
  enumerated_contexts :: "(frame list \<times> string list) list"

text \<open>
  \<open>n for n in names if not _are_independent(irange_counter, irange_counters[n])\<close>;
  \<open>irange_counters[n]\<close> raises \<open>KeyError\<close> on a missing name.
\<close>

fun dependent_names :: "counters \<Rightarrow> (string \<times> counters) list \<Rightarrow> string list \<Rightarrow> error + string list" where
  "dependent_names irange_counter ics [] = Inr []"
| "dependent_names irange_counter ics (n # ns) =
     (case map_of ics n of
        None \<Rightarrow> Inl (KeyError n)
      | Some c \<Rightarrow>
          (case dependent_names irange_counter ics ns of
             Inl e \<Rightarrow> Inl e
           | Inr r \<Rightarrow> Inr (if \<not> are_independent irange_counter c then n # r else r)))"

text \<open>The loop \<open>for enumerated_context, names in enumerated_contexts.items()\<close> at one site.\<close>

fun context_warnings ::
  "string \<Rightarrow> string \<Rightarrow> frame list \<Rightarrow> counters \<Rightarrow> (string \<times> counters) list
     \<Rightarrow> (frame list \<times> string list) list \<Rightarrow> warning list \<times> (error + unit)" where
  "context_warnings role name context irange_counter ics [] = ([], Inr ())"
| "context_warnings role name context irange_counter ics ((enumerated_context, names) # rest) =
     (if \<not> set context \<subset> set enumerated_context
      then context_warnings role name context irange_counter ics rest
      else
        (case dependent_names irange_counter ics names of
           Inl e \<Rightarrow> ([], Inl e)
         | Inr ns \<Rightarrow>
             let names' = sort ns in
             if names' = [] then context_warnings role name context irange_counter ics rest
             else
               let diff = sort (map frame_name (filter (\<lambda>f. f \<notin> set context) enumerated_context));
                   later = context_warnings role name context irange_counter ics rest
               in (PossiblyInvalidDependency role name (sort names') diff # fst later, snd later)))"

text \<open>\<open>enumerated_contexts[context].add(name)\<close>\<close>

fun add_enumerated :: "frame list \<Rightarrow> string \<Rightarrow> (frame list \<times> string list) list
     \<Rightarrow> (frame list \<times> string list) list" where
  "add_enumerated context name [] = [(context, [name])]"
| "add_enumerated context name ((c, names) # rest) =
     (if set c = set context then (c, List.insert name names) # rest
      else (c, names) # add_enumerated context name rest)"

text \<open>The body of the loop over \<open>trace.nodes.items()\<close>.\<close>

definition site_step :: "string list \<Rightarrow> string \<Rightarrow> enum_state \<Rightarrow> string \<Rightarrow> site
     \<Rightarrow> warning list \<times> (error + enum_state)" where
  "site_step enumerated_sites role st name s =
     (if site_type s \<noteq> ''sample'' then ([], Inr st)
      else
        let irange_counter = irange_counter_of (cond_indep_stack s);
            context = context_of (cond_indep_stack s);
            checked = context_warnings role name context irange_counter
                        (irange_counters st) (enumerated_contexts st)
        in (case snd checked of
              Inl e \<Rightarrow> (fst checked, Inl e)
            | Inr _ \<Rightarrow>
                (fst checked,
                 Inr \<lparr>irange_counters = AList.update name irange_counter (irange_counters st),
                      enumerated_contexts =
                        (if name \<in> set enumerated_sites
                         then add_enumerated context name (enumerated_contexts st)
                         else enumerated_contexts st)\<rparr>)))"

fun trace_loop :: "string list \<Rightarrow> string \<Rightarrow> enum_state \<Rightarrow> trace \<Rightarrow> warning list \<times> (error + unit)" where
  "trace_loop enumerated_sites role st [] = ([], Inr ())"
| "trace_loop enumerated_sites role st ((name, s) # rest) =
     (case site_step enumerated_sites role st name s of
        (ws, Inl e) \<Rightarrow> (ws, Inl e)
      | (ws, Inr st') \<Rightarrow>
          (ws @ fst (trace_loop enumerated_sites role st' rest),
           snd (trace_loop enumerated_sites role st' rest)))"

text \<open>
  \<open>site["infer"].get("enumerate")\<close> is truthy: the key is there with a non-empty string
  (\<open>"sequential"\<close> or \<open>"parallel"\<close>).
\<close>

definition enumerated_sites :: "trace \<Rightarrow> string list" where
  "enumerated_sites guide_trace =
     map fst (filter (\<lambda>(name, s). is_sample s \<and> enumerate (infer s) \<noteq> None
                                  \<and> enumerate (infer s) \<noteq> Some []) guide_trace)"

definition initial_state :: enum_state where
  "initial_state = \<lparr>irange_counters = [], enumerated_contexts = []\<rparr>"

definition check_traceenum_requirements :: "trace \<Rightarrow> trace \<Rightarrow> warning list \<times> (error + unit)" where
  "check_traceenum_requirements model_trace guide_trace =
     (let es = enumerated_sites guide_trace;
          model_pass = trace_loop es ''model'' initial_state model_trace
      in (case snd model_pass of
            Inl e \<Rightarrow> (fst model_pass, Inl e)
          | Inr _ \<Rightarrow>
              (fst model_pass @ fst (trace_loop es ''guide'' initial_state guide_trace),
               snd (trace_loop es ''guide'' initial_state guide_trace))))"




section \<open>Numeric guard\<close>

text \<open>
  A Python float by its IEEE class: a finite value, one of the two infinities, or NaN.
  \<open>float_eq\<close> is \<open>==\<close> on floats, under which NaN equals nothing, itself included;
  \<open>!=\<close> is its negation.
\<close>

datatype pyfloat = Num real | PosInf | NegInf | NaN

fun float_eq :: "pyfloat \<Rightarrow> pyfloat \<Rightarrow> bool" where
  "float_eq NaN y = False"
| "float_eq x NaN = False"
| "float_eq x y = (x = y)"

text \<open>
  The argument is a number (\<open>isinstance(x, numbers.Number)\<close>) or a tensor, given by its
  elements. \<open>torch.isnan\<close> marks the NaN elements, \<open>x == float('inf')\<close> compares
  elementwise, and \<open>.any()\<close> is \<open>list_ex\<close>.
\<close>

datatype number_or_tensor = Scalar pyfloat | Tensor "pyfloat list"

fun torch_isnan :: "number_or_tensor \<Rightarrow> bool" where
  "torch_isnan (Scalar x) = (\<not> float_eq x x)"
| "torch_isnan (Tensor xs) = list_ex (\<lambda>x. x = NaN) xs"

fun torch_isinf :: "number_or_tensor \<Rightarrow> bool" where
  "torch_isinf (Scalar x) = (float_eq x PosInf \<or> float_eq x NegInf)"
| "torch_isinf (Tensor xs) =
     (list_ex (\<lambda>x. float_eq x PosInf) xs \<or> list_ex (\<lambda>x. float_eq x NegInf) xs)"

section \<open>optional\<close>

text \<open>
  What a generator-based context manager does, as the list of its actions: entering and
  leaving a context manager, and \<open>yield\<close>. \<open>with cm: block\<close> enters \<open>cm\<close>, runs the
  block and leaves \<open>cm\<close>.
\<close>

datatype 'cm action = Enter 'cm | Yield | Exit 'cm

definition with_block :: "'cm \<Rightarrow> 'cm action list \<Rightarrow> 'cm action list" where
  "with_block cm block = Enter cm # block @ [Exit cm]"

definition optional :: "'cm \<Rightarrow> bool \<Rightarrow> 'cm action list" where
  "optional context_manager condition =
     (if condition then with_block context_manager [Yield] else [Yield])"

text \<open>
  The protocol of \<open>contextlib.contextmanager\<close> for \<open>with gen: body\<close>: the generator runs
  to its first \<open>yield\<close>, then the body runs, then the generator runs to its end. A
  generator that does not yield, or yields again, is a \<open>RuntimeError\<close>.
\<close>

datatype protocol_error = DidNotYield | DidNotStop

definition run_with :: "'cm action list \<Rightarrow> 'cm action list \<Rightarrow> protocol_error + 'cm action list" where
  "run_with gen body =
     (case dropWhile (\<lambda>a. a \<noteq> Yield) gen of
        [] \<Rightarrow> Inl DidNotYield
      | y # rest \<Rightarrow>
          if Yield \<in> set rest then Inl DidNotStop
          else Inr (takeWhile (\<lambda>a. a \<noteq> Yield) gen @ body @ rest))"

text \<open>
  Two notions for the proofs about the loop: a position \<open>d\<close> (negative, from the right)
  already holds a size, and the left-padding step of the loop.
\<close>

definition assigned :: "int option list \<Rightarrow> int \<Rightarrow> bool" where
  "assigned es d = (- d \<le> int (length es) \<and> es ! nat (int (length es) + d) \<noteq> None)"

definition pad_to :: "int \<Rightarrow> int option list \<Rightarrow> int option list" where
  "pad_to d es = (if int (length es) < - d then replicate (nat (- d - int (length es))) None @ es else es)"

text \<open>Sites and frames for the concrete instances below.\<close>

definition plate_frame :: "string \<Rightarrow> int \<Rightarrow> int \<Rightarrow> frame" where
  "plate_frame n d sz =
     \<lparr>frame_name = n, dim = Some d, frame_size = sz, counter = 0, vectorized = True\<rparr>"

definition irange_frame :: "string \<Rightarrow> int \<Rightarrow> int \<Rightarrow> frame" where
  "irange_frame n sz c =
     \<lparr>frame_name = n, dim = None, frame_size = sz, counter = c, vectorized = False\<rparr>"

definition no_hints :: infer_hints where
  "no_hints = \<lparr>is_auxiliary = None, enumerate = None, enumerate_dim = None\<rparr>"

definition sample_site :: "string \<Rightarrow> dist \<Rightarrow> frame list \<Rightarrow> int list \<Rightarrow> site" where
  "sample_site n d st sh =
     \<lparr>site_type = ''sample'', site_name = n, fn = d, is_observed = False, infer = no_hints,
      cond_indep_stack = st, log_prob_shape = sh\<rparr>"

definition normal_dist :: "int list \<Rightarrow> dist" where
  "normal_dist sh = \<lparr>type_name = ''Normal'', event_dim = Some 0, shape = Some sh\<rparr>"


definition trace_ab :: trace where
  "trace_ab = [(''a'', sample_site ''a'' (normal_dist [2]) [] [2]),
               (''b'', sample_site ''b'' (normal_dist []) [] [])]"

definition trace_ac :: trace where
  "trace_ac = [(''a'', sample_site ''a'' (normal_dist [2]) [] [2]),
               (''c'', sample_site ''c'' (normal_dist []) [] [])]"

definition trace_y :: "dist \<Rightarrow> trace" where
  "trace_y d = [(''y'', sample_site ''y'' d [] [])]"

definition enum_hints :: infer_hints where
  "enum_hints = \<lparr>is_auxiliary = None, enumerate = Some ''parallel'', enumerate_dim = None\<rparr>"

definition trace_e_f :: trace where
  "trace_e_f =
     [(''e'', (sample_site ''e'' (normal_dist [2]) [plate_frame ''plateA'' (- 1) 2] [2])\<lparr>infer := enum_hints\<rparr>),
      (''f'', sample_site ''f'' (normal_dist []) [] [])]"

section \<open>Properties of check_site_shape\<close>

lemma length_pad_to: "d < 0 \<Longrightarrow> int (length (pad_to d es)) = max (int (length es)) (- d)"
  by (simp add: pad_to_def)

lemma pad_to_nth:
  assumes "d < 0" "- d \<le> int (length es)"
  shows "pad_to d' es ! nat (int (length (pad_to d' es)) + d) = es ! nat (int (length es) + d)"
proof (cases "int (length es) < - d'")
  case True
  let ?n = "nat (- d' - int (length es))"
  have "nat (int (?n + length es) + d) = ?n + nat (int (length es) + d)"
    using assms True by linarith
  then show ?thesis using True by (simp add: pad_to_def nth_append)
next
  case False
  then show ?thesis by (simp add: pad_to_def)
qed

lemma assigned_step:
  assumes "d < 0" "d' < 0" "assigned es d"
  shows "assigned ((pad_to d' es)[nat (int (length (pad_to d' es)) + d') := Some v]) d"
proof -
  define p where "p = pad_to d' es"
  define i where "i = nat (int (length p) + d)"
  define k where "k = nat (int (length p) + d')"
  have len: "int (length p) = max (int (length es)) (- d')"
    unfolding p_def using assms(2) by (rule length_pad_to)
  have le: "- d \<le> int (length es)" using assms(3) by (simp add: assigned_def)
  have old: "p ! i \<noteq> None"
    unfolding p_def i_def using pad_to_nth [OF assms(1) le, of d'] assms(3) by (simp add: assigned_def)
  have inr: "i < length p"
    unfolding i_def using assms(1) le len by linarith
  have "(p[k := Some v]) ! i \<noteq> None"
    using old inr by (cases "k = i") simp_all
  moreover have "- d \<le> int (length (p[k := Some v]))"
    using le len by simp
  ultimately show ?thesis
    unfolding assigned_def p_def i_def k_def by simp
qed

lemma assigned_here:
  assumes "d < 0"
  shows "assigned ((pad_to d es)[nat (int (length (pad_to d es)) + d) := Some v]) d"
proof -
  have "nat (int (length (pad_to d es)) + d) < length (pad_to d es)"
    using assms length_pad_to [OF assms, of es] by linarith
  then show ?thesis using assms length_pad_to [OF assms, of es] by (simp add: assigned_def)
qed

lemma loop_Cons_Some:
  "dim f = Some d \<Longrightarrow> d < 0 \<Longrightarrow>
   expected_shape_loop sname (f # fs) es =
     (if assigned (pad_to d es) d then Inl (DimCollision sname (frame_name f))
      else expected_shape_loop sname fs ((pad_to d es)[nat (int (length (pad_to d es)) + d) := Some (frame_size f)]))"
  by (auto simp: Let_def pad_to_def assigned_def split: option.splits)

lemma loop_Cons_None:
  "dim f = None \<Longrightarrow> expected_shape_loop sname (f # fs) es = expected_shape_loop sname fs es"
  by simp

declare expected_shape_loop.simps(2) [simp del]

lemma assigned_pad: "d < 0 \<Longrightarrow> d' < 0 \<Longrightarrow> assigned es d \<Longrightarrow> assigned (pad_to d' es) d"
  using pad_to_nth [of d es d'] length_pad_to [of d' es] by (auto simp: assigned_def)

lemma collision_if_assigned:
  assumes "\<forall>f \<in> set fs. \<forall>d. dim f = Some d \<longrightarrow> d < 0"
      and "f \<in> set fs" "dim f = Some d" "assigned es d"
  shows "\<exists>g \<in> set fs. expected_shape_loop sname fs es = Inl (DimCollision sname (frame_name g))"
  using assms
proof (induction fs arbitrary: es)
  case Nil
  then show ?case by simp
next
  case (Cons a fs)
  have dneg: "d < 0" using Cons.prems by auto
  show ?case
  proof (cases "dim a")
    case None
    then have "f \<in> set fs" using Cons.prems by auto
    then show ?thesis using Cons None by (auto simp: loop_Cons_None)
  next
    case (Some d')
    then have d'neg: "d' < 0" using Cons.prems by auto
    show ?thesis
    proof (cases "assigned (pad_to d' es) d'")
      case True
      then show ?thesis using Some d'neg by (simp add: loop_Cons_Some)
    next
      case False
      have "d \<noteq> d'" using False assigned_pad [OF dneg d'neg Cons.prems(4)] by auto
      then have fin: "f \<in> set fs" using Cons.prems Some by auto
      let ?es = "(pad_to d' es)[nat (int (length (pad_to d' es)) + d') := Some (frame_size a)]"
      have "assigned ?es d" using assigned_step [OF dneg d'neg Cons.prems(4)] .
      then have "\<exists>g \<in> set fs. expected_shape_loop sname fs ?es = Inl (DimCollision sname (frame_name g))"
        using Cons.IH [of ?es] Cons.prems fin by auto
      then show ?thesis using Some d'neg False by (auto simp: loop_Cons_Some)
    qed
  qed
qed

lemma collision_two_frames:
  assumes "\<forall>f \<in> set fs. \<forall>d. dim f = Some d \<longrightarrow> d < 0"
      and "i < j" "j < length fs" "dim (fs ! i) = Some d" "dim (fs ! j) = Some d"
  shows "\<exists>g \<in> set fs. expected_shape_loop sname fs es = Inl (DimCollision sname (frame_name g))"
  using assms
proof (induction fs arbitrary: es i j)
  case Nil
  then show ?case by simp
next
  case (Cons a fs)
  obtain j' where j': "j = Suc j'" using Cons.prems(2) by (cases j) auto
  have neg: "\<forall>f \<in> set fs. \<forall>d. dim f = Some d \<longrightarrow> d < 0" using Cons.prems(1) by auto
  have jin: "fs ! j' \<in> set fs" "dim (fs ! j') = Some d" using Cons.prems j' by auto
  then have dneg: "d < 0" using neg by blast
  show ?case
  proof (cases i)
    case 0
    then have a: "dim a = Some d" using Cons.prems by simp
    show ?thesis
    proof (cases "assigned (pad_to d es) d")
      case True
      then show ?thesis using a dneg by (simp add: loop_Cons_Some)
    next
      case False
      let ?es = "(pad_to d es)[nat (int (length (pad_to d es)) + d) := Some (frame_size a)]"
      have "assigned ?es d" using assigned_here [OF dneg] .
      then have "\<exists>g \<in> set fs. expected_shape_loop sname fs ?es = Inl (DimCollision sname (frame_name g))"
        using collision_if_assigned [OF neg jin] by blast
      then show ?thesis using a dneg False by (auto simp: loop_Cons_Some)
    qed
  next
    case (Suc i')
    then have prem: "i' < j'" "j' < length fs" "dim (fs ! i') = Some d"
      using Cons.prems j' by auto
    have IH: "\<exists>g \<in> set fs. expected_shape_loop sname fs es' = Inl (DimCollision sname (frame_name g))" for es'
      using Cons.IH [OF neg prem jin(2)] .
    show ?thesis
    proof (cases "dim a")
      case None
      then show ?thesis using IH by (auto simp: loop_Cons_None)
    next
      case (Some d')
      then have "d' < 0" using Cons.prems(1) by auto
      then show ?thesis using Some IH by (auto simp: loop_Cons_Some)
    qed
  qed
qed


lemma loop_no_dims:
  "\<forall>f \<in> set fs. dim f = None \<Longrightarrow> expected_shape_loop sname fs es = Inr es"
  by (induction fs) (simp_all add: loop_Cons_None)

lemma expected_shape_no_dims:
  "\<forall>f \<in> set (cond_indep_stack s). dim f = None \<Longrightarrow> expected_shape s = Inr []"
  by (simp add: expected_shape_def loop_no_dims fill_wildcards_def)

lemma zip_longest_Nil2: "zip_longest xs [] fill = map (\<lambda>x. (x, fill)) xs"
  by (induction xs) simp_all

lemma compare_sizes_err: "compare_sizes err ps = Inl e \<Longrightarrow> e = err"
  by (induction err ps rule: compare_sizes.induct) (auto split: if_splits)

lemma compare_sizes_ok:
  "compare_sizes err ps = Inr () \<longleftrightarrow> (\<forall>(a, e) \<in> set ps. e = - 1 \<or> e = a)"
  by (induction err ps rule: compare_sizes.induct) auto

lemma compare_sizes_cases:
  "compare_sizes err ps = (if \<forall>(a, e) \<in> set ps. e = - 1 \<or> e = a then Inr () else Inl err)"
proof (cases "compare_sizes err ps")
  case (Inl e)
  then show ?thesis using compare_sizes_err [OF Inl] compare_sizes_ok [of err ps] by auto
next
  case (Inr u)
  then show ?thesis using compare_sizes_ok [of err ps] by auto
qed

lemma rightmost_one: "xs \<noteq> [] \<Longrightarrow> rightmost (Finite 1) xs = [last xs]"
proof -
  assume ne: "xs \<noteq> []"
  then obtain ys y where "xs = ys @ [y]" by (cases xs rule: rev_cases) auto
  then have "drop (length xs - 1) xs = [last xs]" by simp
  moreover have "nat (int (length xs) - 1) = length xs - 1" by simp
  ultimately show ?thesis using ne by (simp add: slice_from_def)
qed

text \<open>
  Claim C1, as amended. A site whose \<open>cond_indep_stack\<close> has no frame with an assigned
  \<open>dim\<close> has the empty expected shape. With \<open>max_plate_nesting = 1\<close> the check then
  succeeds exactly when the \<open>log_prob\<close> shape is empty or its last entry is 1; otherwise
  it raises the invalid-log_prob-shape error with expected \<open>()\<close> and the actual shape cut
  to its last entry. An actual entry that the expected shape does not cover is compared
  with the fill value 1 of \<open>zip_longest\<close>, it is not a wildcard: shape \<open>(3,)\<close> is rejected.
\<close>

theorem no_dims_nesting_one:
  assumes "\<forall>f \<in> set (cond_indep_stack s). dim f = None"
  shows "check_site_shape s (Finite 1) =
           (if log_prob_shape s = [] \<or> last (log_prob_shape s) = 1 then Inr ()
            else Inl (InvalidLogProbShape (site_name s) [] [last (log_prob_shape s)]))"
proof (cases "log_prob_shape s = []")
  case True
  then show ?thesis
    by (simp add: check_site_shape_def expected_shape_no_dims [OF assms])
next
  case False
  have act: "(if len_gt (length (log_prob_shape s)) (Finite 1)
              then rightmost (Finite 1) (log_prob_shape s) else log_prob_shape s)
             = [last (log_prob_shape s)]"
  proof (cases "len_gt (length (log_prob_shape s)) (Finite 1)")
    case True
    then show ?thesis using rightmost_one [OF False] by simp
  next
    case False
    then have "length (log_prob_shape s) = 1"
      using \<open>log_prob_shape s \<noteq> []\<close> by (cases "log_prob_shape s") auto
    then show ?thesis by (cases "log_prob_shape s") auto
  qed
  show ?thesis
    unfolding check_site_shape_def expected_shape_no_dims [OF assms] Let_def act
    using False by simp
qed

theorem no_dims_nesting_one_witness:
  "check_site_shape (sample_site ''x'' (normal_dist [3]) [irange_frame ''i'' 2 0] [3]) (Finite 1)
     = Inl (InvalidLogProbShape ''x'' [] [3])"
  using no_dims_nesting_one [of "sample_site ''x'' (normal_dist [3]) [irange_frame ''i'' 2 0] [3]"]
  by (simp add: sample_site_def irange_frame_def)

text \<open>
  Claim C1 as the specification words it (the site with \<open>log_prob\<close> shape \<open>(3,)\<close>, no
  frames and \<open>max_plate_nesting = 1\<close> passes) fails: the check raises.
\<close>

theorem unplated_batch_dim_rejected:
  "check_site_shape (sample_site ''x'' (normal_dist [3]) [] [3]) (Finite 1)
     = Inl (InvalidLogProbShape ''x'' [] [3])"
  by (simp add: check_site_shape_def expected_shape_def fill_wildcards_def sample_site_def)

text \<open>
  Claim C3. For any site whose stack is two frames with \<open>dim = -2, size = 5\<close> and
  \<open>dim = -1, size = 3\<close>, and \<open>max_plate_nesting = 2\<close>: the check succeeds on the
  \<open>log_prob\<close> shape \<open>(5, 3)\<close>, and on \<open>(5, 4)\<close> it raises the invalid-log_prob-shape
  error of that site with expected \<open>(5, 3)\<close> and actual \<open>(5, 4)\<close>.
\<close>

theorem two_plates_shape:
  "check_site_shape
     (s\<lparr>cond_indep_stack := [f1\<lparr>dim := Some (- 2), frame_size := 5\<rparr>,
                              f2\<lparr>dim := Some (- 1), frame_size := 3\<rparr>],
        log_prob_shape := [5, 3]\<rparr>) (Finite 2) = Inr ()
   \<and> check_site_shape
     (s\<lparr>cond_indep_stack := [f1\<lparr>dim := Some (- 2), frame_size := 5\<rparr>,
                              f2\<lparr>dim := Some (- 1), frame_size := 3\<rparr>],
        log_prob_shape := [5, 4]\<rparr>) (Finite 2)
       = Inl (InvalidLogProbShape (site_name s) [5, 3] [5, 4])"
  by (simp add: check_site_shape_def expected_shape_def fill_wildcards_def loop_Cons_Some
        pad_to_def assigned_def eval_nat_numeral)

lemma loop_errors:
  "expected_shape_loop sname fs es = Inl e \<Longrightarrow>
     e = AssertionError \<or> (\<exists>g \<in> set fs. e = DimCollision sname (frame_name g))"
proof (induction fs arbitrary: es)
  case Nil
  then show ?case by simp
next
  case (Cons a fs)
  show ?case
  proof (cases "dim a")
    case None
    then show ?thesis using Cons by (auto simp: loop_Cons_None)
  next
    case (Some d)
    show ?thesis
    proof (cases "d < 0")
      case True
      then show ?thesis using Cons Some by (auto simp: loop_Cons_Some split: if_splits)
    next
      case False
      then show ?thesis using Cons Some by (simp add: expected_shape_loop.simps(2))
    qed
  qed
qed

lemma loop_Cons_nonneg:
  "dim f = Some d \<Longrightarrow> \<not> d < 0 \<Longrightarrow> expected_shape_loop sname (f # fs) es = Inl AssertionError"
  by (simp add: expected_shape_loop.simps(2))

lemma raises_if_assigned:
  assumes "f \<in> set fs" "dim f = Some d" "d < 0" "assigned es d"
  shows "\<exists>e. expected_shape_loop sname fs es = Inl e"
  using assms
proof (induction fs arbitrary: es)
  case Nil
  then show ?case by simp
next
  case (Cons a fs)
  show ?case
  proof (cases "dim a")
    case None
    then have "f \<in> set fs" using Cons.prems by auto
    then show ?thesis using Cons None by (auto simp: loop_Cons_None)
  next
    case (Some d')
    show ?thesis
    proof (cases "d' < 0")
      case False
      then show ?thesis using Some by (simp add: loop_Cons_nonneg)
    next
      case True
      show ?thesis
      proof (cases "assigned (pad_to d' es) d'")
        case True
        then show ?thesis using Some \<open>d' < 0\<close> by (simp add: loop_Cons_Some)
      next
        case False
        have "d \<noteq> d'" using False assigned_pad [OF Cons.prems(3) True Cons.prems(4)] by auto
        then have fin: "f \<in> set fs" using Cons.prems Some by auto
        let ?es = "(pad_to d' es)[nat (int (length (pad_to d' es)) + d') := Some (frame_size a)]"
        have "assigned ?es d" using assigned_step [OF Cons.prems(3) True Cons.prems(4)] .
        then have "\<exists>e. expected_shape_loop sname fs ?es = Inl e"
          using Cons.IH [OF fin Cons.prems(2,3)] by blast
        then show ?thesis using Some True False by (simp add: loop_Cons_Some)
      qed
    qed
  qed
qed

lemma raises_two_frames:
  assumes "i < j" "j < length fs" "dim (fs ! i) = Some d" "dim (fs ! j) = Some d"
  shows "\<exists>e. expected_shape_loop sname fs es = Inl e"
  using assms
proof (induction fs arbitrary: es i j)
  case Nil
  then show ?case by simp
next
  case (Cons a fs)
  obtain j' where j': "j = Suc j'" using Cons.prems(1) by (cases j) auto
  have jin: "fs ! j' \<in> set fs" "dim (fs ! j') = Some d" using Cons.prems j' by auto
  show ?case
  proof (cases i)
    case 0
    then have a: "dim a = Some d" using Cons.prems by simp
    show ?thesis
    proof (cases "d < 0")
      case False
      then show ?thesis using a by (simp add: loop_Cons_nonneg)
    next
      case True
      show ?thesis
      proof (cases "assigned (pad_to d es) d")
        case True
        then show ?thesis using a \<open>d < 0\<close> by (simp add: loop_Cons_Some)
      next
        case False
        let ?es = "(pad_to d es)[nat (int (length (pad_to d es)) + d) := Some (frame_size a)]"
        have "assigned ?es d" using assigned_here [OF True] .
        then have "\<exists>e. expected_shape_loop sname fs ?es = Inl e"
          using raises_if_assigned [OF jin True] by blast
        then show ?thesis using a True False by (simp add: loop_Cons_Some)
      qed
    qed
  next
    case (Suc i')
    then have prem: "i' < j'" "j' < length fs" "dim (fs ! i') = Some d"
      using Cons.prems j' by auto
    have IH: "\<exists>e. expected_shape_loop sname fs es' = Inl e" for es'
      using Cons.IH [OF prem jin(2)] .
    show ?thesis
    proof (cases "dim a")
      case None
      then show ?thesis using IH by (simp add: loop_Cons_None)
    next
      case (Some d')
      show ?thesis
      proof (cases "d' < 0")
        case True
        then show ?thesis using Some IH by (simp add: loop_Cons_Some)
      next
        case False
        then show ?thesis using Some by (simp add: loop_Cons_nonneg)
      qed
    qed
  qed
qed

text \<open>
  Claim C4. Two frames of the stack with the same assigned \<open>dim\<close> make
  \<open>check_site_shape\<close> raise, whatever \<open>max_plate_nesting\<close> and the \<open>log_prob\<close> shape
  are. In a site whose assigned dims are all negative, as the data model requires, the
  error is the dim-collision error, which names the site and a frame of the stack. The
  only other error possible is the \<open>AssertionError\<close> of \<open>assert f.dim < 0\<close>, on a frame
  with a non-negative dim.
\<close>

theorem dim_collision:
  assumes "i < j" "j < length (cond_indep_stack s)"
      and "dim (cond_indep_stack s ! i) = Some d" "dim (cond_indep_stack s ! j) = Some d"
  shows "(\<exists>e. check_site_shape s max_plate_nesting = Inl e
            \<and> (e = AssertionError
                \<or> (\<exists>g \<in> set (cond_indep_stack s). e = DimCollision (site_name s) (frame_name g))))
       \<and> ((\<forall>f \<in> set (cond_indep_stack s). \<forall>d'. dim f = Some d' \<longrightarrow> d' < 0) \<longrightarrow>
            (\<exists>g \<in> set (cond_indep_stack s).
               check_site_shape s max_plate_nesting = Inl (DimCollision (site_name s) (frame_name g))))"
proof
  obtain e where e: "expected_shape_loop (site_name s) (cond_indep_stack s) [] = Inl e"
    using raises_two_frames [OF assms] by blast
  then have "check_site_shape s max_plate_nesting = Inl e"
    by (simp add: check_site_shape_def expected_shape_def)
  then show "\<exists>e. check_site_shape s max_plate_nesting = Inl e
            \<and> (e = AssertionError
                \<or> (\<exists>g \<in> set (cond_indep_stack s). e = DimCollision (site_name s) (frame_name g)))"
    using loop_errors [OF e] by blast
next
  show "(\<forall>f \<in> set (cond_indep_stack s). \<forall>d'. dim f = Some d' \<longrightarrow> d' < 0) \<longrightarrow>
            (\<exists>g \<in> set (cond_indep_stack s).
               check_site_shape s max_plate_nesting = Inl (DimCollision (site_name s) (frame_name g)))"
  proof
    assume neg: "\<forall>f \<in> set (cond_indep_stack s). \<forall>d'. dim f = Some d' \<longrightarrow> d' < 0"
    obtain g where "g \<in> set (cond_indep_stack s)"
      and "expected_shape_loop (site_name s) (cond_indep_stack s) [] = Inl (DimCollision (site_name s) (frame_name g))"
      using collision_two_frames [OF neg assms, of "site_name s" "[]"] by blast
    then show "\<exists>g \<in> set (cond_indep_stack s).
               check_site_shape s max_plate_nesting = Inl (DimCollision (site_name s) (frame_name g))"
      by (auto simp: check_site_shape_def expected_shape_def)
  qed
qed

theorem dim_collision_witness:
  "\<exists>g \<in> set [plate_frame ''a'' (- 1) 5, plate_frame ''b'' (- 1) 3].
     check_site_shape (sample_site ''x'' (normal_dist [5]) [plate_frame ''a'' (- 1) 5, plate_frame ''b'' (- 1) 3] [5]) (Finite 1)
       = Inl (DimCollision ''x'' (frame_name g))"
  using dim_collision [of 0 1 "sample_site ''x'' (normal_dist [5]) [plate_frame ''a'' (- 1) 5, plate_frame ''b'' (- 1) 3] [5]" "- 1" "Finite 1"]
  by (simp add: sample_site_def plate_frame_def)


text \<open>
  Claim C5. \<open>check_site_shape\<close> raises a plate-stack-overflow error exactly when the
  expected shape exists (the stack raised nothing) and is longer than
  \<open>max_plate_nesting\<close>; the error then names the site and carries the length of the
  expected shape. In every other case no plate-stack-overflow error is raised.
\<close>

theorem plate_stack_overflow:
  "check_site_shape s max_plate_nesting = Inl (PlateStackOverflow n k) \<longleftrightarrow>
     (\<exists>es. expected_shape s = Inr es \<and> len_gt (length es) max_plate_nesting
           \<and> n = site_name s \<and> k = length es)"
proof (cases "expected_shape s")
  case (Inl e)
  then obtain e' where "expected_shape_loop (site_name s) (cond_indep_stack s) [] = Inl e'" "e = e'"
    by (auto simp: expected_shape_def split: sum.splits)
  then have "e \<noteq> PlateStackOverflow n k" using loop_errors by fastforce
  then show ?thesis using Inl by (simp add: check_site_shape_def)
next
  case (Inr es)
  show ?thesis
  proof (cases "len_gt (length es) max_plate_nesting")
    case True
    then show ?thesis using Inr by (auto simp: check_site_shape_def)
  next
    case False
    then show ?thesis using Inr
      by (auto simp: check_site_shape_def Let_def dest: compare_sizes_err)
  qed
qed

theorem plate_stack_overflow_witness:
  "check_site_shape (sample_site ''x'' (normal_dist [5, 1, 3]) [plate_frame ''a'' (- 3) 5, plate_frame ''b'' (- 1) 3] [5, 1, 3]) (Finite 2)
     = Inl (PlateStackOverflow ''x'' 3)"
proof -
  have "expected_shape (sample_site ''x'' (normal_dist [5, 1, 3]) [plate_frame ''a'' (- 3) 5, plate_frame ''b'' (- 1) 3] [5, 1, 3]) = Inr [5, - 1, 3]"
    by (simp add: expected_shape_def fill_wildcards_def loop_Cons_Some pad_to_def assigned_def
          sample_site_def plate_frame_def eval_nat_numeral)
  then show ?thesis
    using plate_stack_overflow [of "sample_site ''x'' (normal_dist [5, 1, 3]) [plate_frame ''a'' (- 3) 5, plate_frame ''b'' (- 1) 3] [5, 1, 3]" "Finite 2" "''x''" 3]
    by (simp add: sample_site_def)
qed


section \<open>Properties of check_traces_match\<close>

lemma traces_match_loop_missing:
  "name \<in> set names \<Longrightarrow> map_of trace2 name = None \<Longrightarrow>
     \<exists>e. traces_match_loop trace1 trace2 names = Inl e"
  by (induction names) (auto simp: lookup_node_def split: sum.splits option.splits)

text \<open>
  Claim C2, on the code. With sample sites \<open>{a, b}\<close> in \<open>trace1\<close> and \<open>{a, c}\<close> in
  \<open>trace2\<close> (the shapes at \<open>a\<close> agree), \<open>check_traces_match\<close> emits the warning that
  lists both sets and then raises \<open>KeyError\<close>: the loop runs over all of \<open>vars1\<close> and
  reads \<open>trace2.nodes['b']\<close>. In either iteration order the outcome is this \<open>KeyError\<close>;
  by \<open>traces_match_loop_missing\<close> every name of \<open>vars1\<close> that \<open>trace2\<close> lacks makes
  the function raise.
\<close>

theorem traces_match_name_sets_differ:
  "check_traces_match trace_ab trace_ac
     = ([ModelVarsChanged {''a'', ''b''} {''a'', ''c''}], Inl (KeyError ''b''))
   \<and> traces_match_loop trace_ab trace_ac [''b'', ''a''] = Inl (KeyError ''b'')"
  by (simp add: check_traces_match_def sample_vars_def trace_ab_def trace_ac_def
        sample_site_def normal_dist_def is_sample_def lookup_node_def doubleton_eq_iff)

section \<open>Properties of check_model_guide_match\<close>

lemma truncate_shape_spec: "truncate_shape mpn sh = spec_rightmost_entries mpn sh"
proof (cases mpn)
  case (Finite m)
  show ?thesis
  proof (cases "m < int (length sh)")
    case True
    then have "nat (int (length sh) - m) = length sh - nat m \<or> (m < 0 \<and> length sh \<le> nat (int (length sh) - m))"
      by linarith
    then show ?thesis using True Finite
      by (auto simp: truncate_shape_def slice_from_def)
  next
    case False
    then show ?thesis using Finite by (simp add: truncate_shape_def)
  qed
next
  case Infinity
  then show ?thesis by (simp add: truncate_shape_def)
qed

lemma compare_model_guide_err: "compare_model_guide err ps = Inl e \<Longrightarrow> e = err"
  by (induction err ps rule: compare_model_guide.induct) (auto split: if_splits)

lemma check_event_dims_Inl:
  "check_event_dims name ms gs = Inl e \<longleftrightarrow>
     (\<exists>m g. event_dim (fn ms) = Some m \<and> event_dim (fn gs) = Some g \<and> m \<noteq> g
            \<and> e = EventDimsDisagree name m g)"
  by (auto simp: check_event_dims_def split: option.splits)

lemma check_shapes_Inl:
  "check_shapes name ms gs mpn = Inl e \<Longrightarrow>
     (\<exists>s1 s2. shape (fn ms) = Some s1 \<and> shape (fn gs) = Some s2
        \<and> truncate_shape mpn s1 \<noteq> truncate_shape mpn s2
        \<and> e = ShapesDisagree name (truncate_shape mpn s1) (truncate_shape mpn s2))"
  by (auto simp: check_shapes_def Let_def split: option.splits if_splits dest: compare_model_guide_err)

lemma check_site_pair_Inl:
  "check_site_pair name ms gs mpn = Inl e \<longleftrightarrow>
     (check_event_dims name ms gs = Inl e
      \<or> (check_event_dims name ms gs = Inr () \<and> check_shapes name ms gs mpn = Inl e))"
  by (auto simp: check_site_pair_def split: sum.splits)

lemma model_guide_loop_Inl:
  "model_guide_loop mt gt mpn names = Inl e \<Longrightarrow>
     \<exists>n \<in> set names. lookup_node mt n = Inl e
        \<or> (\<exists>ms. lookup_node mt n = Inr ms \<and> (lookup_node gt n = Inl e
              \<or> (\<exists>gs. lookup_node gt n = Inr gs \<and> check_site_pair n ms gs mpn = Inl e)))"
  by (induction names) (auto split: sum.splits)


lemma lookup_node_Some: "map_of tr n = Some s \<Longrightarrow> lookup_node tr n = Inr s"
  by (simp add: lookup_node_def)

lemma lookup_node_KeyError: "lookup_node tr n = Inl e \<Longrightarrow> e = KeyError n"
  by (auto simp: lookup_node_def split: option.splits)

lemma snd_check_model_guide_match:
  "snd (check_model_guide_match mt gt mpn) = model_guide_loop mt gt mpn (common_vars mt gt)"
  by (auto simp: check_model_guide_match_def split: sum.splits)

text \<open>
  Claim C6. Let a name be a node of both traces, with both distributions exposing a
  shape, and let the two shapes be equal once each is cut to its rightmost
  \<open>max_plate_nesting\<close> entries. Then the shape test of this site passes, and no
  shape-mismatch error naming the site is raised, neither by the loop in any iteration
  order nor by \<open>check_model_guide_match\<close>. The instance below is model shape \<open>(4, 3)\<close>,
  guide shape \<open>(3,)\<close> and \<open>max_plate_nesting = 1\<close>.
\<close>

theorem truncated_shapes_agree:
  assumes "map_of model_trace name = Some model_site"
      and "map_of guide_trace name = Some guide_site"
      and "shape (fn model_site) = Some model_shape"
      and "shape (fn guide_site) = Some guide_shape"
      and "spec_rightmost_entries max_plate_nesting model_shape
             = spec_rightmost_entries max_plate_nesting guide_shape"
  shows "check_shapes name model_site guide_site max_plate_nesting = Inr ()
       \<and> (\<forall>names s1 s2. model_guide_loop model_trace guide_trace max_plate_nesting names
              \<noteq> Inl (ShapesDisagree name s1 s2))
       \<and> (\<forall>s1 s2. snd (check_model_guide_match model_trace guide_trace max_plate_nesting)
              \<noteq> Inl (ShapesDisagree name s1 s2))"
proof -
  have body: "check_shapes name model_site guide_site max_plate_nesting = Inr ()"
    using assms(3-5) by (simp add: check_shapes_def truncate_shape_spec)
  have loop: "model_guide_loop model_trace guide_trace max_plate_nesting names
                \<noteq> Inl (ShapesDisagree name s1 s2)" for names s1 s2
  proof
    assume "model_guide_loop model_trace guide_trace max_plate_nesting names
              = Inl (ShapesDisagree name s1 s2)"
    from model_guide_loop_Inl [OF this] obtain n ms gs where
      n: "lookup_node model_trace n = Inr ms" "lookup_node guide_trace n = Inr gs"
         "check_site_pair n ms gs max_plate_nesting = Inl (ShapesDisagree name s1 s2)"
      by (auto dest: lookup_node_KeyError)
    then have "check_shapes n ms gs max_plate_nesting = Inl (ShapesDisagree name s1 s2)"
      by (auto simp: check_site_pair_Inl check_event_dims_Inl)
    moreover from this have "n = name" by (auto dest: check_shapes_Inl)
    ultimately show False
      using n(1,2) assms(1,2) body by (simp add: lookup_node_Some)
  qed
  show ?thesis using body loop by (simp add: snd_check_model_guide_match)
qed

theorem truncated_shapes_agree_witness:
  "check_shapes ''y'' (sample_site ''y'' (normal_dist [4, 3]) [] [])
       (sample_site ''y'' (normal_dist [3]) [] []) (Finite 1) = Inr ()
   \<and> (\<forall>names s1 s2. model_guide_loop (trace_y (normal_dist [4, 3])) (trace_y (normal_dist [3])) (Finite 1) names
          \<noteq> Inl (ShapesDisagree ''y'' s1 s2))
   \<and> (\<forall>s1 s2. snd (check_model_guide_match (trace_y (normal_dist [4, 3])) (trace_y (normal_dist [3])) (Finite 1))
          \<noteq> Inl (ShapesDisagree ''y'' s1 s2))"
  using truncated_shapes_agree [of "trace_y (normal_dist [4, 3])" "''y''"
          "sample_site ''y'' (normal_dist [4, 3]) [] []"
          "trace_y (normal_dist [3])" "sample_site ''y'' (normal_dist [3]) [] []" "[4, 3]" "[3]" "Finite 1"]
  by (simp add: trace_y_def sample_site_def normal_dist_def)

lemma model_guide_example:
  "check_model_guide_match (trace_y (normal_dist [4, 3])) (trace_y (normal_dist [3])) (Finite 1) = ([], Inr ())"
  by (simp add: check_model_guide_match_def common_vars_def model_vars_def guide_vars_def
        var_warnings_def plate_warnings_def aux_vars_def enum_vars_def model_plates_def guide_plates_def
        trace_y_def sample_site_def normal_dist_def no_hints_def is_sample_def is_subsample_def
        lookup_node_def check_site_pair_def check_event_dims_def check_shapes_def
        truncate_shape_def slice_from_def)




section \<open>Properties of check_traceenum_requirements\<close>
















lemma traceenum_example:
  "check_traceenum_requirements [] trace_e_f
     = ([PossiblyInvalidDependency ''guide'' ''f'' [''e''] [''plateA'']], Inr ())"
  by (simp add: check_traceenum_requirements_def trace_e_f_def enumerated_sites_def is_sample_def
     sample_site_def enum_hints_def no_hints_def initial_state_def site_step_def context_of_def
     irange_counter_of_def plate_frame_def Let_def psubset_eq)



section \<open>Properties of the numeric guard\<close>

text \<open>
  Claim C8. On a scalar \<open>torch_isnan\<close> returns whether the value is not equal to itself,
  which holds exactly for NaN; on a tensor it returns whether some element is NaN. On a
  scalar \<open>torch_isinf\<close> returns whether the value equals positive or negative infinity,
  on a tensor whether some element does. So \<open>torch_isnan\<close> holds of \<open>float('nan')\<close>,
  \<open>torch_isinf\<close> holds of \<open>float('inf')\<close>, and both are false on a finite number and on a
  tensor of finite numbers.
\<close>

theorem nan_inf_predicates:
  "torch_isnan (Scalar x) = (\<not> float_eq x x)
   \<and> torch_isnan (Scalar x) = (x = NaN)
   \<and> torch_isnan (Tensor xs) = (NaN \<in> set xs)
   \<and> torch_isinf (Scalar x) = (x = PosInf \<or> x = NegInf)
   \<and> torch_isinf (Tensor xs) = (PosInf \<in> set xs \<or> NegInf \<in> set xs)
   \<and> torch_isnan (Scalar NaN) \<and> torch_isinf (Scalar PosInf)
   \<and> \<not> torch_isnan (Scalar (Num r)) \<and> \<not> torch_isinf (Scalar (Num r))
   \<and> \<not> torch_isnan (Tensor (map Num rs)) \<and> \<not> torch_isinf (Tensor (map Num rs))"
proof -
  have r: "float_eq y y \<longleftrightarrow> y \<noteq> NaN" for y by (cases y) simp_all
  have p: "float_eq y PosInf \<longleftrightarrow> y = PosInf" for y by (cases y) simp_all
  have n: "float_eq y NegInf \<longleftrightarrow> y = NegInf" for y by (cases y) simp_all
  show ?thesis by (auto simp: r p n list_ex_iff)
qed

section \<open>Properties of optional\<close>

text \<open>
  Claim C10. For every context manager and condition the generator of \<open>optional\<close> yields
  exactly once. With a false condition it neither enters nor leaves any context manager,
  and the body of the \<open>with\<close> statement runs alone; with a true condition the body runs
  between entering and leaving the wrapped context manager.
\<close>

theorem optional_yields_once:
  "count_list (optional cm condition) Yield = 1
   \<and> Enter cm' \<notin> set (optional cm False) \<and> Exit cm' \<notin> set (optional cm False)
   \<and> run_with (optional cm False) body = Inr body
   \<and> run_with (optional cm True) body = Inr (Enter cm # body @ [Exit cm])"
  by (simp add: optional_def with_block_def run_with_def)

end
